theory Spec2Isabelle
  imports
    Main
    "HOL-Library.AList"
    "HOL-Library.Char_ord"
    "HOL-Library.List_Lexorder"
    "HOL-Library.Product_Lexorder"
    "HOL-Library.Multiset"
    "HOL-Library.Sublist"
begin

section \<open>Storage keys (key.go)\<close>

text \<open>
  Go strings are byte sequences; they are modelled as \<^typ>\<open>string\<close> (lists of 8-bit
  characters). \<open>fmt.Sprintf\<close> with a single \<open>%s\<close> verb is concatenation.
\<close>

definition namespaceKey :: "string \<Rightarrow> string" where
  "namespaceKey namespace = ''service:configuration:namespace:'' @ namespace"

definition pieceListKey :: "string \<Rightarrow> string" where
  "pieceListKey namespace = namespaceKey namespace @ '':piece:list''"

definition pieceUsedKey :: "string \<Rightarrow> string" where
  "pieceUsedKey namespace = namespaceKey namespace @ '':piece:used''"

definition rulerListKey :: "string \<Rightarrow> string" where
  "rulerListKey namespace = namespaceKey namespace @ '':ruler:list''"

definition rulerUsedKey :: "string \<Rightarrow> string" where
  "rulerUsedKey namespace = namespaceKey namespace @ '':ruler:used''"

section \<open>Namespaces (spec.go)\<close>

definition appendToNamespace :: "string \<Rightarrow> string \<Rightarrow> string" where
  "appendToNamespace namespace label = namespace @ ''-'' @ label"

text \<open>\<open>strings.Join\<close>: the elements separated by \<open>sep\<close>, the empty string for no element.\<close>

fun Join :: "string list \<Rightarrow> string \<Rightarrow> string" where
  "Join [] sep = []"
| "Join [x] sep = x"
| "Join (x # y # ys) sep = x @ sep @ Join (y # ys) sep"

text \<open>
  \<open>sort.Strings\<close> orders by byte-wise lexicographic comparison, which is the order of
  \<^typ>\<open>string\<close> given by the character order and the lexicographic list order. The sort
  happens in place on the caller's slice; callers that keep using \<open>labels\<close> afterwards see
  \<^term>\<open>sort labels\<close>.
\<close>

definition labelsToNamespace :: "string list \<Rightarrow> string" where
  "labelsToNamespace labels = Join (sort labels) ''-''"

section \<open>Errors\<close>

text \<open>
  Modelled from the spec: error.go, which declares the error values and \<open>maskAny\<close>, is
  not among the sources. The error kinds are the ones service.go names and the
  specification lists; \<open>maskAny\<close> and \<open>maskAnyf\<close> wrap an error and keep its kind, so
  they are the identity here.
\<close>

datatype error = invalidConfigError | invalidContextError | notFoundError

section \<open>The storage collaborator\<close>

text \<open>
  Modelled from the spec: the storage service behind \<open>s.storage.Configuration\<close> lives in
  another package; only its calls appear in service.go. The model follows the contract
  table of the specification: scalar records and scored sets addressed by key,
  \<open>Remove\<close> and \<open>Exists\<close> ranging over both. A scored set is an association list from
  member to score, a written member replacing its entry in place or joining at the end
  (\<^const>\<open>AList.update\<close>). Scores are only ever set to 0 and incremented by 1, so they are integers.
  A read of a missing scalar and a random pick from an empty set fail with the not-found
  kind; every other operation of this in-memory model succeeds, and the callers keep the
  error branch of each call all the same.
\<close>

record storageService =
  scalars :: "string \<rightharpoonup> string"
  scored :: "string \<rightharpoonup> (string \<times> int) list"

text \<open>
  Modelled from the spec: two readers of the model, the members of the scored set at a key
  (none when the key is absent) and the score of a member (0 when it is not a member).
\<close>

definition members :: "storageService \<Rightarrow> string \<Rightarrow> (string \<times> int) list" where
  "members st key = (case scored st key of None \<Rightarrow> [] | Some xs \<Rightarrow> xs)"

definition score :: "storageService \<Rightarrow> string \<Rightarrow> string \<Rightarrow> int" where
  "score st key member = (case map_of (members st key) member of None \<Rightarrow> 0 | Some v \<Rightarrow> v)"

text \<open>
  Modelled from the spec: \<open>Exists(key)\<close>, membership of a whole scored set or scalar key.
\<close>

definition Exists :: "storageService \<Rightarrow> string \<Rightarrow> error + bool" where
  "Exists st key = Inr (scalars st key \<noteq> None \<or> scored st key \<noteq> None)"

text \<open>
  Modelled from the spec: \<open>ExistsInScoredSet(key, member)\<close>, membership of one element
  within a scored set.
\<close>

definition ExistsInScoredSet :: "storageService \<Rightarrow> string \<Rightarrow> string \<Rightarrow> error + bool" where
  "ExistsInScoredSet st key member = Inr (map_of (members st key) member \<noteq> None)"

text \<open>
  Modelled from the spec: \<open>SetElementByScore(key, member, score)\<close>, insert or overwrite
  one member's score.
\<close>

definition SetElementByScore ::
  "storageService \<Rightarrow> string \<Rightarrow> string \<Rightarrow> int \<Rightarrow> error + storageService" where
  "SetElementByScore st key member v =
     Inr (st\<lparr>scored := (scored st)(key \<mapsto> AList.update member v (members st key))\<rparr>)"

text \<open>
  Modelled from the spec: \<open>IncrementScoredElement(key, member, delta)\<close>, the increment
  that creates the member at \<open>delta\<close> if absent and returns the new score.
\<close>

definition IncrementScoredElement ::
  "storageService \<Rightarrow> string \<Rightarrow> string \<Rightarrow> int \<Rightarrow> error + int \<times> storageService" where
  "IncrementScoredElement st key member delta =
     (let v = score st key member + delta
      in Inr (v, st\<lparr>scored := (scored st)(key \<mapsto> AList.update member v (members st key))\<rparr>))"

text \<open>
  Modelled from the spec: \<open>GetHighestScoredElements(key, n)\<close>, the top \<open>n\<close> by score,
  descending, with a deterministic tie-break: equal scores are ordered by member name,
  descending.
\<close>

definition GetHighestScoredElements ::
  "storageService \<Rightarrow> string \<Rightarrow> nat \<Rightarrow> error + string list" where
  "GetHighestScoredElements st key n =
     Inr (take n (map fst (rev (sort_key (\<lambda>(m, v). (v, m)) (members st key)))))"

text \<open>
  Modelled from the spec: \<open>GetRandomFromScoredSet(key)\<close>, a random existing member,
  failing if the set is empty. The random pick takes the outcome \<open>rnd\<close> of the random
  draw as an argument: the member at index \<open>rnd mod n\<close> of the \<open>n\<close> members.
\<close>

definition GetRandomFromScoredSet :: "storageService \<Rightarrow> string \<Rightarrow> nat \<Rightarrow> error + string" where
  "GetRandomFromScoredSet st key rnd =
     (let xs = members st key
      in if xs = [] then Inl notFoundError else Inr (fst (xs ! (rnd mod length xs))))"

text \<open>
  Modelled from the spec: \<open>Get(key)\<close> and \<open>Set(key, value)\<close>, the scalar read, which
  fails on a missing key, and the scalar write.
\<close>

definition Get :: "storageService \<Rightarrow> string \<Rightarrow> error + string" where
  "Get st key = (case scalars st key of None \<Rightarrow> Inl notFoundError | Some v \<Rightarrow> Inr v)"

definition Set :: "storageService \<Rightarrow> string \<Rightarrow> string \<Rightarrow> error + storageService" where
  "Set st key v = Inr (st\<lparr>scalars := (scalars st)(key \<mapsto> v)\<rparr>)"

text \<open>
  Modelled from the spec: \<open>Remove(key)\<close>, deleting a whole key, scored set or scalar.
\<close>

definition Remove :: "storageService \<Rightarrow> string \<Rightarrow> error + storageService" where
  "Remove st key = Inr (st\<lparr>scalars := (scalars st)(key := None), scored := (scored st)(key := None)\<rparr>)"

section \<open>The call context\<close>

text \<open>
  Modelled from the spec: the stage value of the context package exposes the two predicates
  \<open>Trial()\<close> and \<open>Replay()\<close>; \<open>currentstage.FromContext\<close> returns the value and whether
  the context carries one.
\<close>

record stage =
  Trial :: bool
  Replay :: bool

type_synonym "context" = "stage option"

definition FromContext :: "context \<Rightarrow> stage option" where
  "FromContext ctx = ctx"

section \<open>The service (service.go)\<close>

definition randomRuler :: string where
  "randomRuler = ''random''"

definition highestRuler :: string where
  "highestRuler = ''highest''"

text \<open>
  The registry \<open>s.rulers\<close> maps a name to a closure over the service. The two closures
  that \<open>Boot\<close> registers are the constructors of \<open>ruler\<close>; \<open>runRuler\<close> is their body,
  reading the storage of the service at the time of the call.
\<close>

datatype ruler = randomRulerFunc | highestRulerFunc

record ServiceConfig =
  IDService :: "unit option"
  InstrumentorCollection :: "unit option"
  RandomService :: "unit option"
  StorageCollection :: "storageService option"
  WorkerService :: "unit option"

record 'v service =
  storage :: storageService
  bootOnce :: bool
  pieces :: "string \<rightharpoonup> 'v list"
  rulers :: "(string \<times> ruler) list"

definition NewService :: "ServiceConfig \<Rightarrow> error + 'v service" where
  "NewService config =
     (if IDService config = None then Inl invalidConfigError
      else if InstrumentorCollection config = None then Inl invalidConfigError
      else if RandomService config = None then Inl invalidConfigError
      else case StorageCollection config of
        None \<Rightarrow> Inl invalidConfigError
      | Some st \<Rightarrow>
          if WorkerService config = None then Inl invalidConfigError
          else Inr \<lparr>storage = st, bootOnce = False, pieces = Map.empty, rulers = []\<rparr>)"

fun runRuler :: "ruler \<Rightarrow> storageService \<Rightarrow> string list \<Rightarrow> nat \<Rightarrow> error + string" where
  "runRuler randomRulerFunc st labels rnd =
     (let namespace = labelsToNamespace labels; key = pieceListKey namespace
      in case GetRandomFromScoredSet st key rnd of
           Inl err \<Rightarrow> Inl err
         | Inr element \<Rightarrow> Inr element)"
| "runRuler highestRulerFunc st labels rnd =
     (let namespace = labelsToNamespace labels; key = pieceListKey namespace
      in case GetHighestScoredElements st key 1 of
           Inl err \<Rightarrow> Inl err
         | Inr elements \<Rightarrow>
             if length elements \<noteq> 1 then Inl notFoundError else Inr (hd elements))"

text \<open>\<open>bootOnce.Do\<close> runs its body on the first call only.\<close>

definition Boot :: "'v service \<Rightarrow> 'v service" where
  "Boot s =
     (if bootOnce s then s
      else s\<lparr>bootOnce := True,
             rulers := AList.update highestRuler highestRulerFunc
                         (AList.update randomRuler randomRulerFunc (rulers s))\<rparr>)"

text \<open>
  \<open>Create\<close>. The loop over the registry writes every ruler name at score 0 and stops at
  the first storage error, keeping what it wrote before. Go ranges over a map in no fixed
  order; the loop here follows the list order of the registry, and the members and scores
  it leaves in the ruler scored set are the same in any order.
\<close>

fun seedRulers ::
  "storageService \<Rightarrow> string \<Rightarrow> string list \<Rightarrow> (error + unit) \<times> storageService" where
  "seedRulers st key [] = (Inr (), st)"
| "seedRulers st key (k # ks) =
     (case SetElementByScore st key k 0 of
        Inl err \<Rightarrow> (Inl err, st)
      | Inr st' \<Rightarrow> seedRulers st' key ks)"

definition ensureRulers :: "'v service \<Rightarrow> stage \<Rightarrow> string \<Rightarrow> (error + unit) \<times> 'v service" where
  "ensureRulers s currentStage namespace =
     (if Trial currentStage then
        (let key = rulerListKey namespace
         in case Exists (storage s) key of
              Inl err \<Rightarrow> (Inl err, s)
            | Inr exists \<Rightarrow>
                if \<not> exists then
                  (case seedRulers (storage s) key (map fst (rulers s)) of
                     (Inl err, st) \<Rightarrow> (Inl err, s\<lparr>storage := st\<rparr>)
                   | (Inr u, st) \<Rightarrow> (Inr (), s\<lparr>storage := st\<rparr>))
                else (Inr (), s))
      else (Inr (), s))"

definition ensurePiece :: "'v service \<Rightarrow> string \<Rightarrow> string \<Rightarrow> (error + unit) \<times> 'v service" where
  "ensurePiece s namespace pieceID =
     (let key = pieceListKey namespace
      in case ExistsInScoredSet (storage s) key pieceID of
           Inl err \<Rightarrow> (Inl err, s)
         | Inr exists \<Rightarrow>
             if \<not> exists then
               (case SetElementByScore (storage s) key pieceID 0 of
                  Inl err \<Rightarrow> (Inl err, s)
                | Inr st \<Rightarrow> (Inr (), s\<lparr>storage := st\<rparr>))
             else (Inr (), s))"

definition Create ::
  "'v service \<Rightarrow> context \<Rightarrow> string list \<Rightarrow> string \<Rightarrow> 'v list \<Rightarrow> (error + unit) \<times> 'v service" where
  "Create s ctx labels pieceID results =
     (let namespace = labelsToNamespace labels
      in case FromContext ctx of
           None \<Rightarrow> (Inl invalidContextError, s)
         | Some currentStage \<Rightarrow>
             (case ensureRulers s currentStage namespace of
                (Inl err, s1) \<Rightarrow> (Inl err, s1)
              | (Inr u, s1) \<Rightarrow>
                  (case ensurePiece s1 namespace pieceID of
                     (Inl err, s2) \<Rightarrow> (Inl err, s2)
                   | (Inr u, s2) \<Rightarrow>
                       (let key = pieceListKey namespace
                        in (Inr (),
                            s2\<lparr>pieces := (pieces s2)(appendToNamespace key pieceID \<mapsto> results)\<rparr>)))))"

text \<open>
  \<open>Delete\<close>. \<open>strings.HasPrefix\<close> is \<^const>\<open>prefix\<close>; the loop deletes every cache
  entry whose key has the piece-list key as a prefix.
\<close>

definition Delete :: "'v service \<Rightarrow> context \<Rightarrow> string list \<Rightarrow> (error + unit) \<times> 'v service" where
  "Delete s ctx labels =
     (let namespace = labelsToNamespace labels
      in case Remove (storage s) (rulerListKey namespace) of
           Inl err \<Rightarrow> (Inl err, s)
         | Inr st1 \<Rightarrow>
             (case Remove st1 (pieceListKey namespace) of
                Inl err \<Rightarrow> (Inl err, s\<lparr>storage := st1\<rparr>)
              | Inr st2 \<Rightarrow>
                  (let key = pieceListKey namespace
                   in (Inr (),
                       s\<lparr>storage := st2,
                         pieces := (\<lambda>k. if prefix key k then None else pieces s k)\<rparr>))))"

text \<open>
  \<open>Execute\<close>, block by block. The ruler name starts as the empty string; the trial block
  and the replay block each run when the stage asserts them. The ruler is called with the
  labels that \<open>labelsToNamespace\<close> has sorted in place, and with the outcome \<open>rnd\<close> of the
  random draw the storage makes for it. A cache miss reads the nil slice, which is the empty
  result sequence here.
\<close>

definition trialRuler :: "'v service \<Rightarrow> stage \<Rightarrow> string \<Rightarrow> (error + string) \<times> 'v service" where
  "trialRuler s currentStage namespace =
     (if Trial currentStage then
        (case GetHighestScoredElements (storage s) (rulerListKey namespace) 1 of
           Inl err \<Rightarrow> (Inl err, s)
         | Inr elements \<Rightarrow>
             (let rulerID = (if length elements = 0 then randomRuler else hd elements)
              in case Set (storage s) (rulerUsedKey namespace) rulerID of
                   Inl err \<Rightarrow> (Inl err, s)
                 | Inr st \<Rightarrow> (Inr rulerID, s\<lparr>storage := st\<rparr>)))
      else (Inr [], s))"

definition replayRuler :: "'v service \<Rightarrow> stage \<Rightarrow> string \<Rightarrow> string \<Rightarrow> error + string" where
  "replayRuler s currentStage namespace rulerID =
     (if Replay currentStage then
        (case Get (storage s) (rulerUsedKey namespace) of
           Inl err \<Rightarrow> Inl err
         | Inr v \<Rightarrow> Inr v)
      else Inr rulerID)"

definition selectPiece ::
  "'v service \<Rightarrow> string \<Rightarrow> string list \<Rightarrow> string \<Rightarrow> nat \<Rightarrow> (error + string \<times> 'v list) \<times> 'v service" where
  "selectPiece s namespace labels rulerID rnd =
     (case map_of (rulers s) rulerID of
        None \<Rightarrow> (Inl notFoundError, s)
      | Some ruler \<Rightarrow>
          (case runRuler ruler (storage s) labels rnd of
             Inl err \<Rightarrow> (Inl err, s)
           | Inr pieceID \<Rightarrow>
               (case Set (storage s) (pieceUsedKey namespace) pieceID of
                  Inl err \<Rightarrow> (Inl err, s)
                | Inr st \<Rightarrow>
                    (Inr (pieceID, (case pieces s pieceID of None \<Rightarrow> [] | Some results \<Rightarrow> results)),
                     s\<lparr>storage := st\<rparr>))))"

definition Execute ::
  "'v service \<Rightarrow> context \<Rightarrow> string list \<Rightarrow> nat \<Rightarrow> (error + string \<times> 'v list) \<times> 'v service" where
  "Execute s ctx labels rnd =
     (let namespace = labelsToNamespace labels
      in case FromContext ctx of
           None \<Rightarrow> (Inl invalidContextError, s)
         | Some currentStage \<Rightarrow>
             (case trialRuler s currentStage namespace of
                (Inl err, s1) \<Rightarrow> (Inl err, s1)
              | (Inr rulerID1, s1) \<Rightarrow>
                  (case replayRuler s1 currentStage namespace rulerID1 of
                     Inl err \<Rightarrow> (Inl err, s1)
                   | Inr rulerID \<Rightarrow> selectPiece s1 namespace (sort labels) rulerID rnd)))"

definition Failure :: "'v service \<Rightarrow> context \<Rightarrow> string list \<Rightarrow> (error + unit) \<times> 'v service" where
  "Failure s ctx labels =
     (case Delete s ctx labels of
        (Inl err, s1) \<Rightarrow> (Inl err, s1)
      | (Inr u, s1) \<Rightarrow> (Inr (), s1))"

definition Success :: "'v service \<Rightarrow> context \<Rightarrow> string list \<Rightarrow> (error + unit) \<times> 'v service" where
  "Success s ctx labels =
     (let namespace = labelsToNamespace labels
      in case Get (storage s) (rulerUsedKey namespace) of
           Inl err \<Rightarrow> (Inl err, s)
         | Inr rulerID \<Rightarrow>
             (case IncrementScoredElement (storage s) (rulerListKey namespace) rulerID 1 of
                Inl err \<Rightarrow> (Inl err, s)
              | Inr (v1, st1) \<Rightarrow>
                  (case Get st1 (pieceUsedKey namespace) of
                     Inl err \<Rightarrow> (Inl err, s\<lparr>storage := st1\<rparr>)
                   | Inr pieceID \<Rightarrow>
                       (case IncrementScoredElement st1 (pieceListKey namespace) pieceID 1 of
                          Inl err \<Rightarrow> (Inl err, s\<lparr>storage := st1\<rparr>)
                        | Inr (v2, st2) \<Rightarrow> (Inr (), s\<lparr>storage := st2\<rparr>)))))"

section \<open>Reachable service states\<close>

text \<open>
  The states a service can be in: the one \<open>NewService\<close> returns, and every state that
  a call of the interface leaves behind, whatever its arguments and whether it fails.
\<close>

inductive reachable :: "'v service \<Rightarrow> bool" where
  reachable_NewService: "NewService config = Inr s \<Longrightarrow> reachable s"
| reachable_Boot: "reachable s \<Longrightarrow> reachable (Boot s)"
| reachable_Create: "reachable s \<Longrightarrow> reachable (snd (Create s ctx labels pieceID results))"
| reachable_Delete: "reachable s \<Longrightarrow> reachable (snd (Delete s ctx labels))"
| reachable_Execute: "reachable s \<Longrightarrow> reachable (snd (Execute s ctx labels rnd))"
| reachable_Failure: "reachable s \<Longrightarrow> reachable (snd (Failure s ctx labels))"
| reachable_Success: "reachable s \<Longrightarrow> reachable (snd (Success s ctx labels))"

section \<open>Example inputs\<close>

text \<open>
  The scenario of the specification: a booted service on an empty storage, the labels
  \<open>["stageA", "featureX"]\<close>, the pieces \<open>"p1"\<close> and \<open>"p2"\<close> created in a trial, one
  trial execution whose random draw picks the first member, and its success.
\<close>

abbreviation trialContext :: "context" where
  "trialContext \<equiv> Some \<lparr>Trial = True, Replay = False\<rparr>"

abbreviation replayContext :: "context" where
  "replayContext \<equiv> Some \<lparr>Trial = False, Replay = True\<rparr>"

abbreviation idleContext :: "context" where
  "idleContext \<equiv> Some \<lparr>Trial = False, Replay = False\<rparr>"

abbreviation exampleLabels :: "string list" where
  "exampleLabels \<equiv> [''stageA'', ''featureX'']"

abbreviation exampleConfig :: ServiceConfig where
  "exampleConfig \<equiv>
     \<lparr>IDService = Some (), InstrumentorCollection = Some (), RandomService = Some (),
      StorageCollection = Some \<lparr>scalars = Map.empty, scored = Map.empty\<rparr>,
      WorkerService = Some ()\<rparr>"

definition newService :: "string service" where
  "newService =
     \<lparr>storage = \<lparr>scalars = Map.empty, scored = Map.empty\<rparr>, bootOnce = False,
      pieces = Map.empty, rulers = []\<rparr>"

definition bootedService :: "string service" where
  "bootedService = Boot newService"

definition twoPieces :: "string service" where
  "twoPieces =
     snd (Create (snd (Create bootedService trialContext exampleLabels ''p1'' [''val1'']))
            trialContext exampleLabels ''p2'' [''val2''])"

definition executedOnce :: "string service" where
  "executedOnce = snd (Execute twoPieces trialContext exampleLabels 0)"

definition succeededOnce :: "string service" where
  "succeededOnce = snd (Success executedOnce trialContext exampleLabels)"

text \<open>
  A booted service on a storage where the ruler \<open>"highest"\<close> leads the ruler scored set
  and the piece \<open>"p2"\<close> leads the piece scored set, while a random draw of 0 picks
  \<open>"p1"\<close>.
\<close>

definition highestLeads :: "string service" where
  "highestLeads =
     \<lparr>storage = \<lparr>scalars = Map.empty,
        scored = [rulerListKey ''featureX-stageA'' \<mapsto> [(''random'', 1), (''highest'', 2)],
                  pieceListKey ''featureX-stageA'' \<mapsto> [(''p1'', 0), (''p2'', 5)]]\<rparr>,
      bootOnce = True,
      pieces = Map.empty,
      rulers = [(''random'', randomRulerFunc), (''highest'', highestRulerFunc)]\<rparr>"

section \<open>Unfolding and frame lemmas\<close>

lemmas storage_defs = members_def score_def Exists_def ExistsInScoredSet_def SetElementByScore_def
  IncrementScoredElement_def GetHighestScoredElements_def GetRandomFromScoredSet_def Get_def Set_def
  Remove_def

lemmas key_defs = namespaceKey_def pieceListKey_def pieceUsedKey_def rulerListKey_def
  rulerUsedKey_def appendToNamespace_def labelsToNamespace_def

lemmas service_defs = FromContext_def randomRuler_def highestRuler_def Boot_def ensureRulers_def
  ensurePiece_def Create_def Delete_def trialRuler_def replayRuler_def selectPiece_def Execute_def
  Failure_def Success_def Let_def

lemma used_keys_distinct [simp]:
  "rulerUsedKey ns \<noteq> pieceUsedKey ns" "pieceUsedKey ns \<noteq> rulerUsedKey ns"
  by (simp_all add: rulerUsedKey_def pieceUsedKey_def)

lemma list_keys_distinct [simp]:
  "rulerListKey ns \<noteq> pieceListKey ns" "pieceListKey ns \<noteq> rulerListKey ns"
  by (simp_all add: rulerListKey_def pieceListKey_def)

lemma used_list_keys_distinct [simp]:
  "rulerUsedKey ns \<noteq> rulerListKey ns" "rulerUsedKey ns \<noteq> pieceListKey ns"
  "pieceUsedKey ns \<noteq> rulerListKey ns" "pieceUsedKey ns \<noteq> pieceListKey ns"
  "rulerListKey ns \<noteq> rulerUsedKey ns" "pieceListKey ns \<noteq> rulerUsedKey ns"
  "rulerListKey ns \<noteq> pieceUsedKey ns" "pieceListKey ns \<noteq> pieceUsedKey ns"
  by (simp_all add: rulerUsedKey_def pieceUsedKey_def rulerListKey_def pieceListKey_def)

lemma labelsToNamespace_sort [simp]: "labelsToNamespace (sort labels) = labelsToNamespace labels"
  by (simp add: labelsToNamespace_def sorted_sort_id)

lemma members_scalars_update [simp]: "members (st\<lparr>scalars := f\<rparr>) key = members st key"
  by (simp add: members_def)

lemma cache_key_namespaced:
  "prefix ''service:configuration:namespace:'' (appendToNamespace (pieceListKey ns) pieceID)"
  by (simp add: appendToNamespace_def pieceListKey_def namespaceKey_def)

lemma pair_of_fst: "fst x = a \<Longrightarrow> x = (a, snd x)"
  by (cases x) simp

section \<open>Namespace derivation\<close>

text \<open>
  C3. Namespace derivation is permutation-invariant: two label lists that are permutations
  of one another (the same multiset of labels) derive the same namespace string, the labels
  sorted ascending and joined with a dash; the labels \<open>["stageA", "featureX"]\<close> derive
  \<open>"featureX-stageA"\<close>.
\<close>

theorem labelsToNamespace_permutation_invariant:
  "(mset labels' = mset labels \<longrightarrow> labelsToNamespace labels' = labelsToNamespace labels) \<and>
   labelsToNamespace [''stageA'', ''featureX''] = ''featureX-stageA''"
proof
  show "mset labels' = mset labels \<longrightarrow> labelsToNamespace labels' = labelsToNamespace labels"
  proof
    assume "mset labels' = mset labels"
    then have "sort labels' = sort labels"
      by (simp add: properties_for_sort)
    then show "labelsToNamespace labels' = labelsToNamespace labels"
      by (simp add: labelsToNamespace_def)
  qed
  show "labelsToNamespace [''stageA'', ''featureX''] = ''featureX-stageA''"
    by (simp add: labelsToNamespace_def)
qed

theorem labelsToNamespace_permutation_invariant_witness:
  "mset [''b'', ''a'', ''c''] = mset [''c'', ''b'', ''a''] \<and>
   labelsToNamespace [''b'', ''a'', ''c''] = labelsToNamespace [''c'', ''b'', ''a''] \<and>
   labelsToNamespace [''c'', ''b'', ''a''] = ''a-b-c''"
proof -
  have h: "mset [''b'', ''a'', ''c''] = mset [''c'', ''b'', ''a'']"
    by (simp add: add_mset_commute)
  have v: "labelsToNamespace [''c'', ''b'', ''a''] = ''a-b-c''"
    by (simp add: labelsToNamespace_def)
  from h v labelsToNamespace_permutation_invariant [of "[''b'', ''a'', ''c'']" "[''c'', ''b'', ''a'']"]
  show ?thesis by blast
qed

section \<open>Cache keys and prefix matching\<close>

lemma prefix_upto_mark:
  "c \<notin> set a \<Longrightarrow> c \<notin> set b \<Longrightarrow> prefix (a @ c # u) (b @ c # v) \<Longrightarrow> a = b"
proof (induction a arbitrary: b)
  case Nil
  then show ?case by (cases b) auto
next
  case (Cons x a)
  then show ?case by (cases b) auto
qed

text \<open>
  C10, as the claim states it, fails: \<open>appendToNamespace\<close> joins with the dash, the very
  separator of \<open>labelsToNamespace\<close>, and the namespaces of the labels \<open>["a"]\<close> and
  \<open>["a:piece:list"]\<close> differ while the cache key of piece \<open>"p"\<close> in the second has the
  piece-list key of the first as a prefix.
\<close>

theorem cache_key_prefix_counterexample:
  "appendToNamespace ''k'' ''p'' = ''k-p'' \<and>
   labelsToNamespace [''k'', ''p''] = ''k-p'' \<and>
   labelsToNamespace [''a''] \<noteq> labelsToNamespace [''a:piece:list''] \<and>
   prefix (pieceListKey (labelsToNamespace [''a'']))
     (appendToNamespace (pieceListKey (labelsToNamespace [''a:piece:list''])) ''p'')"
  by (simp add: pieceListKey_def namespaceKey_def appendToNamespace_def labelsToNamespace_def)

text \<open>
  C10, amended. Every cache key built for a namespace has that namespace's piece-list key
  as a prefix; and for two namespaces that contain no colon, a cache key built for the
  second has the piece-list key of the first as a prefix only when the two namespaces are
  equal, whatever the piece identifier.
\<close>

theorem cache_key_prefix_isolation:
  "prefix (pieceListKey ns) (appendToNamespace (pieceListKey ns) pieceID) \<and>
   (CHR '':'' \<notin> set ns1 \<and> CHR '':'' \<notin> set ns2 \<and>
    prefix (pieceListKey ns1) (appendToNamespace (pieceListKey ns2) pieceID)
    \<longrightarrow> ns1 = ns2)"
proof
  show "prefix (pieceListKey ns) (appendToNamespace (pieceListKey ns) pieceID)"
    by (simp add: appendToNamespace_def)
  show "CHR '':'' \<notin> set ns1 \<and> CHR '':'' \<notin> set ns2 \<and>
    prefix (pieceListKey ns1) (appendToNamespace (pieceListKey ns2) pieceID) \<longrightarrow> ns1 = ns2"
  proof
    assume h: "CHR '':'' \<notin> set ns1 \<and> CHR '':'' \<notin> set ns2 \<and>
      prefix (pieceListKey ns1) (appendToNamespace (pieceListKey ns2) pieceID)"
    then have "prefix (ns1 @ CHR '':'' # ''piece:list'') (ns2 @ CHR '':'' # ''piece:list-'' @ pieceID)"
      by (simp add: pieceListKey_def namespaceKey_def appendToNamespace_def)
    with h show "ns1 = ns2"
      using prefix_upto_mark [of "CHR '':''" ns1 ns2] by simp
  qed
qed

theorem cache_key_prefix_isolation_witness:
  "CHR '':'' \<notin> set ''a'' \<and> CHR '':'' \<notin> set ''a-b'' \<and>
   \<not> prefix (pieceListKey ''a'') (appendToNamespace (pieceListKey ''a-b'') ''p'') \<and>
   prefix (pieceListKey ''a'') (appendToNamespace (pieceListKey ''a'') ''p'')"
  using cache_key_prefix_isolation [of "''a''" "''p''" "''a''" "''a-b''"]
  by (simp add: pieceListKey_def namespaceKey_def appendToNamespace_def)

section \<open>Storage facts\<close>

lemma sorted_le_last: "sorted xs \<Longrightarrow> x \<in> set xs \<Longrightarrow> x \<le> last xs"
  by (induction xs) auto

lemma take_one_rev: "xs \<noteq> [] \<Longrightarrow> take 1 (map f (rev xs)) = [f (last xs)]"
  by (cases xs rule: rev_cases) auto

lemma highest_is_maximal:
  assumes "members st key \<noteq> []"
  shows "\<exists>m v. GetHighestScoredElements st key 1 = Inr [m] \<and> (m, v) \<in> set (members st key) \<and>
           (\<forall>(m', v') \<in> set (members st key). v' \<le> v)"
proof -
  let ?f = "\<lambda>(m, v). (v, m) :: int \<times> string"
  let ?ys = "sort_key ?f (members st key)"
  have ne: "?ys \<noteq> []"
    using assms by (metis length_0_conv length_sort)
  obtain m v where mv: "last ?ys = (m, v)"
    by (cases "last ?ys") auto
  have inset: "(m, v) \<in> set (members st key)"
    using ne mv last_in_set [of ?ys] by simp
  have top: "\<forall>(m', v') \<in> set (members st key). v' \<le> v"
  proof (clarify)
    fix m' v'
    assume "(m', v') \<in> set (members st key)"
    then have "?f (m', v') \<in> set (map ?f ?ys)"
      by force
    moreover have "sorted (map ?f ?ys)"
      by simp
    moreover have "last (map ?f ?ys) = ?f (m, v)"
      using ne mv by (simp add: last_map)
    ultimately have "?f (m', v') \<le> ?f (m, v)"
      using sorted_le_last [of "map ?f ?ys" "?f (m', v')"] by simp
    then show "v' \<le> v"
      by (auto simp: less_eq_prod_def)
  qed
  have "GetHighestScoredElements st key 1 = Inr [m]"
    using take_one_rev [OF ne, of fst] mv by (simp add: GetHighestScoredElements_def)
  with inset top show ?thesis by blast
qed

lemma highest_none:
  "members st key = [] \<Longrightarrow> GetHighestScoredElements st key n = Inr []"
  by (simp add: GetHighestScoredElements_def)

lemma score_update_same:
  "score (st\<lparr>scored := (scored st)(key \<mapsto> AList.update m v (members st key))\<rparr>) key m = v"
  by (simp add: score_def members_def update_conv')

lemma lookup_update_other:
  "(key', m') \<noteq> (key, m) \<Longrightarrow>
   map_of (members (st\<lparr>scored := (scored st)(key \<mapsto> AList.update m v (members st key))\<rparr>) key') m' =
   map_of (members st key') m'"
  by (auto simp add: members_def update_conv')

section \<open>Rulers and the blocks of Execute\<close>

lemma runRuler_empty:
  "members st (pieceListKey (labelsToNamespace labels)) = [] \<Longrightarrow>
   runRuler ruler st labels rnd = Inl notFoundError"
  by (cases ruler) (simp_all add: GetRandomFromScoredSet_def GetHighestScoredElements_def)

lemma runRuler_scored:
  "scored st' = scored st \<Longrightarrow> runRuler ruler st' labels rnd = runRuler ruler st labels rnd"
  by (cases ruler)
     (simp_all add: GetRandomFromScoredSet_def GetHighestScoredElements_def members_def)

lemma runRuler_highest_draw:
  "runRuler highestRulerFunc st labels rnd' = runRuler highestRulerFunc st labels rnd"
  by simp

lemma selectPiece_empty:
  "members (storage s) (pieceListKey (labelsToNamespace labels)) = [] \<Longrightarrow>
   fst (selectPiece s ns labels rulerID rnd) = Inl notFoundError"
  by (simp add: selectPiece_def runRuler_empty split: option.splits)

lemma selectPiece_keeps_rulerUsed:
  "scalars (storage s) (rulerUsedKey ns) = Some r \<Longrightarrow>
   scalars (storage (snd (selectPiece s ns labels rulerID rnd))) (rulerUsedKey ns) = Some r"
  by (simp add: selectPiece_def Set_def split: option.splits sum.splits)

lemma selectPiece_unfold:
  "selectPiece s ns labels rulerID rnd =
     (case map_of (rulers s) rulerID of
        None \<Rightarrow> (Inl notFoundError, s)
      | Some ruler \<Rightarrow>
          (case runRuler ruler (storage s) labels rnd of
             Inl err \<Rightarrow> (Inl err, s)
           | Inr pieceID \<Rightarrow>
               (Inr (pieceID, (case pieces s pieceID of None \<Rightarrow> [] | Some results \<Rightarrow> results)),
                s\<lparr>storage := (storage s)\<lparr>scalars :=
                     (scalars (storage s))(pieceUsedKey ns \<mapsto> pieceID)\<rparr>\<rparr>)))"
  by (simp add: selectPiece_def Set_def split: option.splits sum.splits)

lemma selectPiece_success:
  assumes "selectPiece s ns labels rulerID rnd = (Inr (p, rs), s1)"
  shows "\<exists>ruler. map_of (rulers s) rulerID = Some ruler \<and>
           runRuler ruler (storage s) labels rnd = Inr p \<and>
           rs = (case pieces s p of None \<Rightarrow> [] | Some results \<Rightarrow> results) \<and>
           s1 = s\<lparr>storage := (storage s)\<lparr>scalars := (scalars (storage s))(pieceUsedKey ns \<mapsto> p)\<rparr>\<rparr>"
  using assms
  by (auto simp add: selectPiece_def Set_def split: option.splits sum.splits)

lemma selectPiece_again:
  assumes "map_of (rulers s) rulerID = Some ruler"
    and "runRuler ruler (storage s) labels rnd = Inr p"
  shows "fst (selectPiece s ns labels rulerID rnd) =
           Inr (p, case pieces s p of None \<Rightarrow> [] | Some results \<Rightarrow> results)"
  using assms by (simp add: selectPiece_def Set_def)

lemma selectPiece_pieces: "pieces (snd (selectPiece s ns labels rulerID rnd)) = pieces s"
  by (simp add: selectPiece_def Set_def split: option.splits sum.splits)

lemma selectPiece_results:
  "fst (selectPiece s ns labels rulerID rnd) = Inr (p, rs) \<Longrightarrow>
   rs = (case pieces s p of None \<Rightarrow> [] | Some results \<Rightarrow> results)"
  by (auto simp add: selectPiece_def Set_def split: option.splits sum.splits)

lemma trialRuler_pieces: "trialRuler s currentStage ns = (r, s') \<Longrightarrow> pieces s' = pieces s"
  by (auto simp add: trialRuler_def Set_def GetHighestScoredElements_def Let_def split: if_splits)

lemma Execute_trial_run:
  assumes "Trial currentStage"
    and "GetHighestScoredElements (storage s) (rulerListKey (labelsToNamespace labels)) 1 = Inr elements"
    and "rulerID = (if length elements = 0 then randomRuler else hd elements)"
  shows "Execute s (Some currentStage) labels rnd =
       selectPiece
         (s\<lparr>storage := (storage s)\<lparr>scalars :=
              (scalars (storage s))(rulerUsedKey (labelsToNamespace labels) \<mapsto> rulerID)\<rparr>\<rparr>)
         (labelsToNamespace labels) (sort labels) rulerID rnd"
  using assms
  by (cases "Replay currentStage")
     (simp_all add: Execute_def FromContext_def trialRuler_def replayRuler_def Let_def Set_def Get_def)

lemma Execute_trial_unfold:
  assumes "Trial currentStage"
  shows "\<exists>rulerID. Execute s (Some currentStage) labels rnd =
       selectPiece
         (s\<lparr>storage := (storage s)\<lparr>scalars :=
              (scalars (storage s))(rulerUsedKey (labelsToNamespace labels) \<mapsto> rulerID)\<rparr>\<rparr>)
         (labelsToNamespace labels) (sort labels) rulerID rnd"
proof -
  obtain elements where
    "GetHighestScoredElements (storage s) (rulerListKey (labelsToNamespace labels)) 1 = Inr elements"
    by (simp add: GetHighestScoredElements_def)
  from Execute_trial_run [OF assms this refl] show ?thesis
    by blast
qed

lemma Execute_replay_unfold:
  assumes "Replay currentStage" and "\<not> Trial currentStage"
    and "scalars (storage s) (rulerUsedKey (labelsToNamespace labels)) = Some rulerID"
  shows "Execute s (Some currentStage) labels rnd =
           selectPiece s (labelsToNamespace labels) (sort labels) rulerID rnd"
  using assms
  by (simp add: Execute_def FromContext_def trialRuler_def replayRuler_def Let_def Get_def)

lemma Execute_pieces: "pieces (snd (Execute s ctx labels rnd)) = pieces s"
  by (auto simp add: Execute_def FromContext_def Let_def selectPiece_pieces
      split: option.splits prod.splits sum.splits dest: trialRuler_pieces)

lemma Execute_results:
  "fst (Execute s ctx labels rnd) = Inr (p, rs) \<Longrightarrow>
   rs = (case pieces s p of None \<Rightarrow> [] | Some results \<Rightarrow> results)"
  by (auto simp add: Execute_def FromContext_def Let_def
      split: option.splits prod.splits sum.splits
      dest!: trialRuler_pieces selectPiece_results)

section \<open>The blocks of Create, Delete and Success\<close>

lemma seedRulers_ok: "fst (seedRulers st key ks) = Inr ()"
  by (induction ks arbitrary: st) (simp_all add: SetElementByScore_def)

lemma seedRulers_scalars: "scalars (snd (seedRulers st key ks)) = scalars st"
  by (induction ks arbitrary: st) (simp_all add: SetElementByScore_def)

lemma seedRulers_scored: "k \<noteq> key \<Longrightarrow> scored (snd (seedRulers st key ks)) k = scored st k"
  by (induction ks arbitrary: st) (simp_all add: SetElementByScore_def)

lemma ensureRulers_ok: "fst (ensureRulers s currentStage ns) = Inr ()"
  using seedRulers_ok [of "storage s" "rulerListKey ns" "map fst (rulers s)"]
  by (auto simp add: ensureRulers_def Exists_def Let_def split: prod.splits sum.splits)

lemma ensureRulers_frame:
  "pieces (snd (ensureRulers s currentStage ns)) = pieces s"
  "rulers (snd (ensureRulers s currentStage ns)) = rulers s"
  "bootOnce (snd (ensureRulers s currentStage ns)) = bootOnce s"
  by (simp_all add: ensureRulers_def Exists_def Let_def split: prod.splits sum.splits)

lemma ensureRulers_scored:
  "k \<noteq> rulerListKey ns \<Longrightarrow>
   scored (storage (snd (ensureRulers s currentStage ns))) k = scored (storage s) k"
  using seedRulers_scored [of k "rulerListKey ns" "storage s" "map fst (rulers s)"]
  by (auto simp add: ensureRulers_def Exists_def Let_def split: prod.splits sum.splits)

lemma ensurePiece_ok: "fst (ensurePiece s ns pieceID) = Inr ()"
  by (simp add: ensurePiece_def ExistsInScoredSet_def SetElementByScore_def Let_def)

lemma ensurePiece_frame:
  "pieces (snd (ensurePiece s ns pieceID)) = pieces s"
  "rulers (snd (ensurePiece s ns pieceID)) = rulers s"
  "bootOnce (snd (ensurePiece s ns pieceID)) = bootOnce s"
  "scalars (storage (snd (ensurePiece s ns pieceID))) = scalars (storage s)"
  by (simp_all add: ensurePiece_def ExistsInScoredSet_def SetElementByScore_def Let_def)

lemma ensurePiece_lookup:
  "map_of (members (storage (snd (ensurePiece s ns pieceID))) (pieceListKey ns)) pieceID =
     Some (score (storage s) (pieceListKey ns) pieceID)"
  by (auto simp add: ensurePiece_def ExistsInScoredSet_def SetElementByScore_def Let_def
      score_def members_def update_conv')

lemma Create_unfold:
  "Create s (Some currentStage) labels pieceID results =
     (Inr (),
      (snd (ensurePiece (snd (ensureRulers s currentStage (labelsToNamespace labels)))
              (labelsToNamespace labels) pieceID))
      \<lparr>pieces := (pieces s)(appendToNamespace (pieceListKey (labelsToNamespace labels)) pieceID
                     \<mapsto> results)\<rparr>)"
proof -
  let ?ns = "labelsToNamespace labels"
  obtain s1 where s1: "ensureRulers s currentStage ?ns = (Inr (), s1)"
    using ensureRulers_ok [of s currentStage ?ns] by (cases "ensureRulers s currentStage ?ns") auto
  obtain s2 where s2: "ensurePiece s1 ?ns pieceID = (Inr (), s2)"
    using ensurePiece_ok [of s1 ?ns pieceID] by (cases "ensurePiece s1 ?ns pieceID") auto
  have "pieces s2 = pieces s"
    using ensurePiece_frame(1) [of s1 ?ns pieceID] ensureRulers_frame(1) [of s currentStage ?ns] s1 s2
    by simp
  then show ?thesis
    using s1 s2 by (simp add: Create_def FromContext_def Let_def)
qed

lemma Create_score:
  "map_of (members (storage (snd (Create s (Some currentStage) labels pieceID results)))
      (pieceListKey (labelsToNamespace labels))) pieceID =
   Some (score (storage s) (pieceListKey (labelsToNamespace labels)) pieceID)"
proof -
  let ?ns = "labelsToNamespace labels"
  have "members (storage (snd (ensureRulers s currentStage ?ns))) (pieceListKey ?ns) =
      members (storage s) (pieceListKey ?ns)"
    by (simp add: members_def ensureRulers_scored)
  then have "score (storage (snd (ensureRulers s currentStage ?ns))) (pieceListKey ?ns) pieceID =
      score (storage s) (pieceListKey ?ns) pieceID"
    by (simp add: score_def)
  then show ?thesis
    using ensurePiece_lookup [of "snd (ensureRulers s currentStage ?ns)" ?ns pieceID]
    by (simp add: Create_unfold)
qed

lemma Create_pieces:
  "pieces (snd (Create s ctx labels pieceID results)) k \<noteq> None \<Longrightarrow>
   pieces s k \<noteq> None \<or> k = appendToNamespace (pieceListKey (labelsToNamespace labels)) pieceID"
proof (cases ctx)
  case None
  then show "pieces (snd (Create s ctx labels pieceID results)) k \<noteq> None \<Longrightarrow> ?thesis"
    by (simp add: Create_def FromContext_def)
next
  case (Some currentStage)
  then show "pieces (snd (Create s ctx labels pieceID results)) k \<noteq> None \<Longrightarrow> ?thesis"
    by (simp add: Create_unfold split: if_splits)
qed

lemma Delete_unfold:
  "Delete s ctx labels =
     (Inr (),
      s\<lparr>storage := (storage s)
           \<lparr>scalars := (scalars (storage s))
              (rulerListKey (labelsToNamespace labels) := None,
               pieceListKey (labelsToNamespace labels) := None),
            scored := (scored (storage s))
              (rulerListKey (labelsToNamespace labels) := None,
               pieceListKey (labelsToNamespace labels) := None)\<rparr>,
        pieces := (\<lambda>k. if prefix (pieceListKey (labelsToNamespace labels)) k then None
                        else pieces s k)\<rparr>)"
  by (simp add: Delete_def Remove_def Let_def)

lemma Delete_pieces:
  "pieces (snd (Delete s ctx labels)) k \<noteq> None \<Longrightarrow> pieces s k \<noteq> None"
  by (auto simp add: Delete_unfold split: if_splits)

lemma Success_pieces: "pieces (snd (Success s ctx labels)) = pieces s"
  by (simp add: Success_def Get_def IncrementScoredElement_def Let_def split: option.splits)

lemma Success_unfold:
  assumes "scalars (storage s) (rulerUsedKey (labelsToNamespace labels)) = Some rulerID"
    and "scalars (storage s) (pieceUsedKey (labelsToNamespace labels)) = Some pieceID"
  shows "Success s ctx labels =
    (Inr (),
     s\<lparr>storage :=
         snd (projr (IncrementScoredElement
           (snd (projr (IncrementScoredElement (storage s)
              (rulerListKey (labelsToNamespace labels)) rulerID 1)))
           (pieceListKey (labelsToNamespace labels)) pieceID 1))\<rparr>)"
  using assms by (simp add: Success_def Get_def IncrementScoredElement_def Let_def)

lemma reachable_cache_namespaced:
  "reachable s \<Longrightarrow> pieces s k \<noteq> None \<Longrightarrow> prefix ''service:configuration:namespace:'' k"
proof (induction arbitrary: k rule: reachable.induct)
  case (reachable_NewService config s)
  then show ?case
    by (auto simp add: NewService_def split: if_splits option.splits)
next
  case (reachable_Boot s)
  then show ?case by (simp add: Boot_def split: if_splits)
next
  case (reachable_Create s ctx labels pieceID results)
  then show ?case
    using Create_pieces [of s ctx labels pieceID results k] cache_key_namespaced by blast
next
  case (reachable_Delete s ctx labels)
  then show ?case using Delete_pieces by blast
next
  case (reachable_Execute s ctx labels rnd)
  then show ?case by (simp add: Execute_pieces)
next
  case (reachable_Failure s ctx labels)
  then show ?case
    using Delete_pieces [of s ctx labels k]
    by (auto simp add: Failure_def split: prod.splits sum.splits)
next
  case (reachable_Success s ctx labels)
  then show ?case by (simp add: Success_pieces)
qed

section \<open>The example scenario, evaluated\<close>

lemma newService_reachable: "reachable newService"
  by (rule reachable_NewService [of exampleConfig]) (simp add: NewService_def newService_def)

lemma bootedService_reachable: "reachable bootedService"
  unfolding bootedService_def using newService_reachable by (rule reachable_Boot)

lemma bootedService_eq:
  "bootedService =
     \<lparr>storage = \<lparr>scalars = Map.empty, scored = Map.empty\<rparr>, bootOnce = True,
      pieces = Map.empty,
      rulers = [(''random'', randomRulerFunc), (''highest'', highestRulerFunc)]\<rparr>"
  by (simp add: bootedService_def newService_def Boot_def randomRuler_def highestRuler_def)

lemma twoPieces_eq:
  "twoPieces =
     \<lparr>storage = \<lparr>scalars = Map.empty,
        scored = [rulerListKey ''featureX-stageA'' \<mapsto> [(''random'', 0), (''highest'', 0)],
                  pieceListKey ''featureX-stageA'' \<mapsto> [(''p1'', 0), (''p2'', 0)]]\<rparr>,
      bootOnce = True,
      pieces = [appendToNamespace (pieceListKey ''featureX-stageA'') ''p1'' \<mapsto> [''val1''],
                appendToNamespace (pieceListKey ''featureX-stageA'') ''p2'' \<mapsto> [''val2'']],
      rulers = [(''random'', randomRulerFunc), (''highest'', highestRulerFunc)]\<rparr>"
  unfolding twoPieces_def bootedService_eq by (simp add: service_defs storage_defs key_defs)

lemma executedOnce_eq:
  "executedOnce =
     \<lparr>storage = \<lparr>scalars = [rulerUsedKey ''featureX-stageA'' \<mapsto> ''random'',
                              pieceUsedKey ''featureX-stageA'' \<mapsto> ''p1''],
        scored = [rulerListKey ''featureX-stageA'' \<mapsto> [(''random'', 0), (''highest'', 0)],
                  pieceListKey ''featureX-stageA'' \<mapsto> [(''p1'', 0), (''p2'', 0)]]\<rparr>,
      bootOnce = True,
      pieces = [appendToNamespace (pieceListKey ''featureX-stageA'') ''p1'' \<mapsto> [''val1''],
                appendToNamespace (pieceListKey ''featureX-stageA'') ''p2'' \<mapsto> [''val2'']],
      rulers = [(''random'', randomRulerFunc), (''highest'', highestRulerFunc)]\<rparr>"
  unfolding executedOnce_def twoPieces_eq by (simp add: service_defs storage_defs key_defs)

lemma succeededOnce_eq:
  "succeededOnce =
     \<lparr>storage = \<lparr>scalars = [rulerUsedKey ''featureX-stageA'' \<mapsto> ''random'',
                              pieceUsedKey ''featureX-stageA'' \<mapsto> ''p1''],
        scored = [rulerListKey ''featureX-stageA'' \<mapsto> [(''random'', 1), (''highest'', 0)],
                  pieceListKey ''featureX-stageA'' \<mapsto> [(''p1'', 1), (''p2'', 0)]]\<rparr>,
      bootOnce = True,
      pieces = [appendToNamespace (pieceListKey ''featureX-stageA'') ''p1'' \<mapsto> [''val1''],
                appendToNamespace (pieceListKey ''featureX-stageA'') ''p2'' \<mapsto> [''val2'']],
      rulers = [(''random'', randomRulerFunc), (''highest'', highestRulerFunc)]\<rparr>"
  unfolding succeededOnce_def executedOnce_eq by (simp add: service_defs storage_defs key_defs)

section \<open>Trial and replay\<close>

text \<open>
  C1, as the claim states it, fails. In the scenario of the specification, after the two
  pieces were created, executed once and reported successful, a trial execution whose random
  draw picks the first member returns \<open>"p1"\<close> and records the ruler \<open>"random"\<close>; the
  replay execution that follows on the unchanged storage, with a draw that picks the second
  member, returns \<open>"p2"\<close>.
\<close>

theorem replay_differs_counterexample:
  "fst (Execute succeededOnce trialContext exampleLabels 0) = Inr (''p1'', []) \<and>
   scalars (storage (snd (Execute succeededOnce trialContext exampleLabels 0)))
     (rulerUsedKey (labelsToNamespace exampleLabels)) = Some ''random'' \<and>
   fst (Execute (snd (Execute succeededOnce trialContext exampleLabels 0))
          replayContext exampleLabels 1) = Inr (''p2'', [])"
  unfolding succeededOnce_eq by (simp add: service_defs storage_defs key_defs)

text \<open>
  C1, amended. After a trial execution that returned a piece, the used-ruler record names a
  registered ruler, and a replay execution on the state the trial left re-invokes that
  ruler: it returns the same piece and results when the recorded ruler is the highest
  ruler, and when the storage's random draw is the one the trial had.
\<close>

theorem replay_reruns_recorded_ruler:
  assumes "Trial trialStage" and "Replay replayStage" and "\<not> Trial replayStage"
    and "fst (Execute s (Some trialStage) labels rnd) = Inr (p, rs)"
  shows "\<exists>rulerID ruler.
     scalars (storage (snd (Execute s (Some trialStage) labels rnd)))
       (rulerUsedKey (labelsToNamespace labels)) = Some rulerID \<and>
     map_of (rulers (snd (Execute s (Some trialStage) labels rnd))) rulerID = Some ruler \<and>
     (rnd' = rnd \<or> ruler = highestRulerFunc \<longrightarrow>
        fst (Execute (snd (Execute s (Some trialStage) labels rnd)) (Some replayStage) labels rnd')
          = Inr (p, rs))"
proof -
  let ?ns = "labelsToNamespace labels"
  let ?s1 = "snd (Execute s (Some trialStage) labels rnd)"
  have whole: "Execute s (Some trialStage) labels rnd = (Inr (p, rs), ?s1)"
    using assms(4) by (rule pair_of_fst)
  obtain rulerID where ex: "Execute s (Some trialStage) labels rnd =
       selectPiece
         (s\<lparr>storage := (storage s)\<lparr>scalars := (scalars (storage s))(rulerUsedKey ?ns \<mapsto> rulerID)\<rparr>\<rparr>)
         ?ns (sort labels) rulerID rnd"
    using Execute_trial_unfold [OF assms(1)] by blast
  let ?sa = "s\<lparr>storage := (storage s)\<lparr>scalars := (scalars (storage s))(rulerUsedKey ?ns \<mapsto> rulerID)\<rparr>\<rparr>"
  from ex whole have "selectPiece ?sa ?ns (sort labels) rulerID rnd = (Inr (p, rs), ?s1)"
    by simp
  from selectPiece_success [OF this] obtain ruler where
    reg: "map_of (rulers ?sa) rulerID = Some ruler" and
    run: "runRuler ruler (storage ?sa) (sort labels) rnd = Inr p" and
    rs: "rs = (case pieces ?sa p of None \<Rightarrow> [] | Some results \<Rightarrow> results)" and
    s1: "?s1 = ?sa\<lparr>storage := (storage ?sa)\<lparr>scalars := (scalars (storage ?sa))(pieceUsedKey ?ns \<mapsto> p)\<rparr>\<rparr>"
    by blast
  have rec: "scalars (storage ?s1) (rulerUsedKey ?ns) = Some rulerID"
    by (simp add: s1)
  have reg1: "map_of (rulers ?s1) rulerID = Some ruler"
    using reg by (simp add: s1)
  have same: "runRuler ruler (storage ?s1) (sort labels) r = runRuler ruler (storage ?sa) (sort labels) r" for r
    by (rule runRuler_scored) (simp add: s1)
  have "fst (Execute ?s1 (Some replayStage) labels rnd') = Inr (p, rs)"
    if c: "rnd' = rnd \<or> ruler = highestRulerFunc"
  proof -
    have "runRuler ruler (storage ?s1) (sort labels) rnd' = Inr p"
      using c run same [of rnd'] runRuler_highest_draw [of "storage ?sa" "sort labels" rnd' rnd]
      by auto
    from selectPiece_again [OF reg1 this, of ?ns]
    have "fst (selectPiece ?s1 ?ns (sort labels) rulerID rnd') = Inr (p, rs)"
      by (simp add: rs s1)
    then show ?thesis
      by (simp add: Execute_replay_unfold [OF assms(2,3) rec])
  qed
  with rec reg1 show ?thesis by blast
qed

theorem replay_reruns_recorded_ruler_witness:
  "Trial \<lparr>Trial = True, Replay = False\<rparr> \<and> Replay \<lparr>Trial = False, Replay = True\<rparr> \<and>
   \<not> Trial \<lparr>Trial = False, Replay = True\<rparr> \<and>
   fst (Execute succeededOnce trialContext exampleLabels 1) = Inr (''p2'', []) \<and>
   fst (Execute (snd (Execute succeededOnce trialContext exampleLabels 1))
          replayContext exampleLabels 1) = Inr (''p2'', [])"
proof -
  have h1: "Trial \<lparr>Trial = True, Replay = False\<rparr>" by simp
  have h2: "Replay \<lparr>Trial = False, Replay = True\<rparr>" by simp
  have h3: "\<not> Trial \<lparr>Trial = False, Replay = True\<rparr>" by simp
  have h4: "fst (Execute succeededOnce trialContext exampleLabels 1) = Inr (''p2'', [])"
    unfolding succeededOnce_eq by (simp add: service_defs storage_defs key_defs)
  from replay_reruns_recorded_ruler [OF h1 h2 h3 h4, of 1]
  have "fst (Execute (snd (Execute succeededOnce trialContext exampleLabels 1))
          replayContext exampleLabels 1) = Inr (''p2'', [])"
    by blast
  with h1 h2 h3 h4 show ?thesis by blast
qed

text \<open>
  C8. In a trial, Execute resolves the ruler as the name with the highest score in the
  namespace's ruler scored set, or as \<open>"random"\<close> when that set has no element, and writes
  this name to the used-ruler record. The whole call is then determined by this name: with
  no ruler registered under it Execute fails with the not-found error; otherwise the ruler
  invoked is the one the registry holds under this very name, run on the storage that
  already holds the record, and its error or its piece is what Execute returns. The record
  still holds the name when Execute returns, whether the ruler succeeded or not.
\<close>

theorem Execute_trial_records_ruler:
  assumes "Trial currentStage"
  shows "\<exists>rulerID.
     ((members (storage s) (rulerListKey (labelsToNamespace labels)) = [] \<and> rulerID = randomRuler) \<or>
      (\<exists>v. (rulerID, v) \<in> set (members (storage s) (rulerListKey (labelsToNamespace labels))) \<and>
           (\<forall>(m', v') \<in> set (members (storage s) (rulerListKey (labelsToNamespace labels))). v' \<le> v))) \<and>
     Execute s (Some currentStage) labels rnd =
       (case map_of (rulers s) rulerID of
          None \<Rightarrow>
            (Inl notFoundError,
             s\<lparr>storage := (storage s)\<lparr>scalars :=
                  (scalars (storage s))(rulerUsedKey (labelsToNamespace labels) \<mapsto> rulerID)\<rparr>\<rparr>)
        | Some ruler \<Rightarrow>
            (case runRuler ruler
                    ((storage s)\<lparr>scalars :=
                       (scalars (storage s))(rulerUsedKey (labelsToNamespace labels) \<mapsto> rulerID)\<rparr>)
                    (sort labels) rnd of
               Inl err \<Rightarrow>
                 (Inl err,
                  s\<lparr>storage := (storage s)\<lparr>scalars :=
                       (scalars (storage s))(rulerUsedKey (labelsToNamespace labels) \<mapsto> rulerID)\<rparr>\<rparr>)
             | Inr pieceID \<Rightarrow>
                 (Inr (pieceID, (case pieces s pieceID of None \<Rightarrow> [] | Some results \<Rightarrow> results)),
                  s\<lparr>storage := (storage s)\<lparr>scalars :=
                       (scalars (storage s))
                         (rulerUsedKey (labelsToNamespace labels) \<mapsto> rulerID,
                          pieceUsedKey (labelsToNamespace labels) \<mapsto> pieceID)\<rparr>\<rparr>))) \<and>
     scalars (storage (snd (Execute s (Some currentStage) labels rnd)))
       (rulerUsedKey (labelsToNamespace labels)) = Some rulerID"
proof -
  let ?ns = "labelsToNamespace labels"
  let ?s' = "\<lambda>rulerID. s\<lparr>storage := (storage s)\<lparr>scalars :=
              (scalars (storage s))(rulerUsedKey ?ns \<mapsto> rulerID)\<rparr>\<rparr>"
  let ?rhs = "\<lambda>rulerID. (case map_of (rulers s) rulerID of
          None \<Rightarrow> (Inl notFoundError, ?s' rulerID)
        | Some ruler \<Rightarrow>
            (case runRuler ruler
                    ((storage s)\<lparr>scalars := (scalars (storage s))(rulerUsedKey ?ns \<mapsto> rulerID)\<rparr>)
                    (sort labels) rnd of
               Inl err \<Rightarrow> (Inl err, ?s' rulerID)
             | Inr pieceID \<Rightarrow>
                 (Inr (pieceID, (case pieces s pieceID of None \<Rightarrow> [] | Some results \<Rightarrow> results)),
                  s\<lparr>storage := (storage s)\<lparr>scalars :=
                       (scalars (storage s))
                         (rulerUsedKey ?ns \<mapsto> rulerID, pieceUsedKey ?ns \<mapsto> pieceID)\<rparr>\<rparr>)))"
  have expand: "selectPiece (?s' rulerID) ?ns (sort labels) rulerID rnd = ?rhs rulerID" for rulerID
    by (simp add: selectPiece_unfold split: option.splits sum.splits)
  have kept: "scalars (storage (snd (selectPiece (?s' rulerID) ?ns (sort labels) rulerID rnd)))
      (rulerUsedKey ?ns) = Some rulerID" for rulerID
    by (rule selectPiece_keeps_rulerUsed) simp
  show ?thesis
  proof (cases "members (storage s) (rulerListKey ?ns) = []")
    case True
    then have "GetHighestScoredElements (storage s) (rulerListKey ?ns) 1 = Inr []"
      by (rule highest_none)
    from Execute_trial_run [OF assms this, of randomRuler rnd]
    have run: "Execute s (Some currentStage) labels rnd =
        selectPiece (?s' randomRuler) ?ns (sort labels) randomRuler rnd"
      by simp
    have e: "Execute s (Some currentStage) labels rnd = ?rhs randomRuler"
      unfolding run by (rule expand)
    have k: "scalars (storage (snd (Execute s (Some currentStage) labels rnd)))
        (rulerUsedKey ?ns) = Some randomRuler"
      unfolding run by (rule kept)
    from True e k show ?thesis
      by blast
  next
    case False
    then obtain m v where mv: "GetHighestScoredElements (storage s) (rulerListKey ?ns) 1 = Inr [m]"
      "(m, v) \<in> set (members (storage s) (rulerListKey ?ns))"
      "\<forall>(m', v') \<in> set (members (storage s) (rulerListKey ?ns)). v' \<le> v"
      using highest_is_maximal by blast
    from Execute_trial_run [OF assms mv(1), of m rnd]
    have run: "Execute s (Some currentStage) labels rnd =
        selectPiece (?s' m) ?ns (sort labels) m rnd"
      by simp
    have e: "Execute s (Some currentStage) labels rnd = ?rhs m"
      unfolding run by (rule expand)
    have k: "scalars (storage (snd (Execute s (Some currentStage) labels rnd)))
        (rulerUsedKey ?ns) = Some m"
      unfolding run by (rule kept)
    from mv(2,3) e k show ?thesis
      by blast
  qed
qed

theorem Execute_trial_records_ruler_witness:
  "Trial \<lparr>Trial = True, Replay = False\<rparr> \<and>
   members (storage highestLeads) (rulerListKey (labelsToNamespace exampleLabels)) =
     [(''random'', 1), (''highest'', 2)] \<and>
   members (storage highestLeads) (pieceListKey (labelsToNamespace exampleLabels)) =
     [(''p1'', 0), (''p2'', 5)] \<and>
   map_of (rulers highestLeads) ''highest'' = Some highestRulerFunc \<and>
   fst (Execute highestLeads trialContext exampleLabels 0) = Inr (''p2'', []) \<and>
   scalars (storage (snd (Execute highestLeads trialContext exampleLabels 0)))
     (rulerUsedKey (labelsToNamespace exampleLabels)) = Some ''highest''"
proof -
  let ?ns = "labelsToNamespace exampleLabels"
  have h: "Trial \<lparr>Trial = True, Replay = False\<rparr>" by simp
  have m: "members (storage highestLeads) (rulerListKey ?ns) = [(''random'', 1), (''highest'', 2)]"
    by (simp add: highestLeads_def members_def key_defs)
  have p: "members (storage highestLeads) (pieceListKey ?ns) = [(''p1'', 0), (''p2'', 5)]"
    by (simp add: highestLeads_def members_def key_defs)
  have g: "map_of (rulers highestLeads) ''highest'' = Some highestRulerFunc"
    by (simp add: highestLeads_def)
  have c: "pieces highestLeads ''p2'' = None"
    by (simp add: highestLeads_def)
  have run: "runRuler highestRulerFunc
      ((storage highestLeads)\<lparr>scalars :=
          (scalars (storage highestLeads))(rulerUsedKey ?ns \<mapsto> ''highest'')\<rparr>)
      (sort exampleLabels) 0 = Inr ''p2''"
    by (simp add: highestLeads_def storage_defs key_defs Let_def)
  from Execute_trial_records_ruler [OF h, of highestLeads exampleLabels 0]
  obtain rulerID where
    d: "(members (storage highestLeads) (rulerListKey ?ns) = [] \<and> rulerID = randomRuler) \<or>
        (\<exists>v. (rulerID, v) \<in> set (members (storage highestLeads) (rulerListKey ?ns)) \<and>
           (\<forall>(m', v') \<in> set (members (storage highestLeads) (rulerListKey ?ns)). v' \<le> v))" and
    e: "Execute highestLeads trialContext exampleLabels 0 =
       (case map_of (rulers highestLeads) rulerID of
          None \<Rightarrow>
            (Inl notFoundError,
             highestLeads\<lparr>storage := (storage highestLeads)\<lparr>scalars :=
                  (scalars (storage highestLeads))(rulerUsedKey ?ns \<mapsto> rulerID)\<rparr>\<rparr>)
        | Some ruler \<Rightarrow>
            (case runRuler ruler
                    ((storage highestLeads)\<lparr>scalars :=
                       (scalars (storage highestLeads))(rulerUsedKey ?ns \<mapsto> rulerID)\<rparr>)
                    (sort exampleLabels) 0 of
               Inl err \<Rightarrow>
                 (Inl err,
                  highestLeads\<lparr>storage := (storage highestLeads)\<lparr>scalars :=
                       (scalars (storage highestLeads))(rulerUsedKey ?ns \<mapsto> rulerID)\<rparr>\<rparr>)
             | Inr pieceID \<Rightarrow>
                 (Inr (pieceID, (case pieces highestLeads pieceID of None \<Rightarrow> [] | Some results \<Rightarrow> results)),
                  highestLeads\<lparr>storage := (storage highestLeads)\<lparr>scalars :=
                       (scalars (storage highestLeads))
                         (rulerUsedKey ?ns \<mapsto> rulerID, pieceUsedKey ?ns \<mapsto> pieceID)\<rparr>\<rparr>)))" and
    r: "scalars (storage (snd (Execute highestLeads trialContext exampleLabels 0)))
          (rulerUsedKey ?ns) = Some rulerID"
    by blast
  from d have id: "rulerID = ''highest''"
    unfolding m by auto
  have res: "fst (Execute highestLeads trialContext exampleLabels 0) = Inr (''p2'', [])"
    unfolding e id using g run c by simp
  from h m p g res r id show ?thesis by simp
qed

section \<open>The stage signal\<close>

text \<open>
  C5, as the claim states it, fails: with a stage value that asserts neither trial nor
  replay, Execute on a booted service fails with the not-found error, not with the
  invalid-context error.
\<close>

theorem Execute_stage_signal_counterexample:
  "fst (Execute bootedService idleContext exampleLabels 0) = Inl notFoundError \<and>
   notFoundError \<noteq> invalidContextError"
  unfolding bootedService_eq by (simp add: service_defs)

text \<open>
  C5, amended. When the context carries no stage value, Execute fails with the
  invalid-context error and leaves the service as it was. When the stage value is present
  and asserts neither trial nor replay, the ruler name stays empty, and with no ruler
  registered under the empty name Execute fails with the not-found error, the service
  unchanged.
\<close>

theorem Execute_stage_signal:
  "Execute s None labels rnd = (Inl invalidContextError, s) \<and>
   (\<not> Trial currentStage \<and> \<not> Replay currentStage \<and> map_of (rulers s) [] = None \<longrightarrow>
    Execute s (Some currentStage) labels rnd = (Inl notFoundError, s))"
  by (simp add: Execute_def FromContext_def trialRuler_def replayRuler_def selectPiece_def Let_def)

theorem Execute_stage_signal_witness:
  "\<not> Trial \<lparr>Trial = False, Replay = False\<rparr> \<and> \<not> Replay \<lparr>Trial = False, Replay = False\<rparr> \<and>
   map_of (rulers bootedService) [] = None \<and>
   Execute bootedService idleContext exampleLabels 0 = (Inl notFoundError, bootedService) \<and>
   Execute bootedService None exampleLabels 0 = (Inl invalidContextError, bootedService)"
proof -
  have h: "\<not> Trial \<lparr>Trial = False, Replay = False\<rparr> \<and> \<not> Replay \<lparr>Trial = False, Replay = False\<rparr> \<and>
      map_of (rulers bootedService) [] = None"
    by (simp add: bootedService_eq)
  with Execute_stage_signal [of bootedService exampleLabels 0 "\<lparr>Trial = False, Replay = False\<rparr>"]
  show ?thesis by blast
qed

text \<open>
  C9. When the storage holds no ruler list, no piece list and no used-ruler record for the
  namespace of the labels, Execute with a stage value fails with the not-found error: in a
  trial the ruler defaults to \<open>"random"\<close> and finds no piece, in a replay the read of the
  used-ruler record fails.
\<close>

theorem Execute_without_Create_notFound:
  assumes "members (storage s) (rulerListKey (labelsToNamespace labels)) = []"
    and "members (storage s) (pieceListKey (labelsToNamespace labels)) = []"
    and "scalars (storage s) (rulerUsedKey (labelsToNamespace labels)) = None"
  shows "fst (Execute s (Some currentStage) labels rnd) = Inl notFoundError"
proof (cases "Trial currentStage")
  case True
  then show ?thesis using assms
    by (cases "Replay currentStage")
       (simp_all add: Execute_def FromContext_def trialRuler_def replayRuler_def Let_def
        GetHighestScoredElements_def Set_def Get_def selectPiece_empty)
next
  case False
  then show ?thesis using assms
    by (cases "Replay currentStage")
       (simp_all add: Execute_def FromContext_def trialRuler_def replayRuler_def Let_def
        Get_def selectPiece_empty)
qed

theorem Execute_without_Create_notFound_witness:
  "members (storage bootedService) (rulerListKey (labelsToNamespace exampleLabels)) = [] \<and>
   members (storage bootedService) (pieceListKey (labelsToNamespace exampleLabels)) = [] \<and>
   scalars (storage bootedService) (rulerUsedKey (labelsToNamespace exampleLabels)) = None \<and>
   fst (Execute bootedService trialContext exampleLabels 0) = Inl notFoundError \<and>
   fst (Execute bootedService replayContext exampleLabels 0) = Inl notFoundError"
proof -
  have h1: "members (storage bootedService) (rulerListKey (labelsToNamespace exampleLabels)) = []"
    by (simp add: bootedService_eq members_def)
  have h2: "members (storage bootedService) (pieceListKey (labelsToNamespace exampleLabels)) = []"
    by (simp add: bootedService_eq members_def)
  have h3: "scalars (storage bootedService) (rulerUsedKey (labelsToNamespace exampleLabels)) = None"
    by (simp add: bootedService_eq)
  from h1 h2 h3 Execute_without_Create_notFound [OF h1 h2 h3, of "\<lparr>Trial = True, Replay = False\<rparr>" 0]
    Execute_without_Create_notFound [OF h1 h2 h3, of "\<lparr>Trial = False, Replay = True\<rparr>" 0]
  show ?thesis by blast
qed

section \<open>The piece cache\<close>

text \<open>
  C2. Create stores the results under the piece-list key joined with the piece identifier,
  a key that begins with \<open>"service:configuration:namespace:"\<close>, and Execute reads the cache
  at the bare piece identifier. So in every reachable service state, right after a Create
  that registered results, an Execute that selects a piece whose identifier does not begin
  with that prefix returns the empty result sequence.
\<close>

theorem Execute_misses_registered_results:
  assumes "reachable s"
    and "fst (Create s ctx labels pieceID results) = Inr ()"
    and "fst (Execute (snd (Create s ctx labels pieceID results)) ctx' labels rnd) = Inr (p, rs)"
    and "\<not> prefix ''service:configuration:namespace:'' p"
  shows "pieces (snd (Create s ctx labels pieceID results))
           (appendToNamespace (pieceListKey (labelsToNamespace labels)) pieceID) = Some results \<and>
         prefix ''service:configuration:namespace:''
           (appendToNamespace (pieceListKey (labelsToNamespace labels)) pieceID) \<and>
         rs = []"
proof -
  let ?s1 = "snd (Create s ctx labels pieceID results)"
  have "reachable ?s1"
    using assms(1) by (rule reachable_Create)
  then have "pieces ?s1 p = None"
    using reachable_cache_namespaced [of ?s1 p] assms(4) by blast
  then have "rs = []"
    using Execute_results [OF assms(3)] by simp
  moreover have "pieces ?s1 (appendToNamespace (pieceListKey (labelsToNamespace labels)) pieceID)
      = Some results"
  proof (cases ctx)
    case None
    then show ?thesis
      using assms(2) by (simp add: Create_def FromContext_def)
  next
    case (Some currentStage)
    then show ?thesis
      by (simp add: Create_unfold)
  qed
  ultimately show ?thesis
    using cache_key_namespaced by simp
qed

theorem Execute_misses_registered_results_witness:
  "reachable bootedService \<and>
   fst (Create bootedService trialContext exampleLabels ''p1'' [''val1'']) = Inr () \<and>
   \<not> prefix ''service:configuration:namespace:'' ''p1'' \<and>
   pieces (snd (Create bootedService trialContext exampleLabels ''p1'' [''val1'']))
     ''service:configuration:namespace:featureX-stageA:piece:list-p1'' = Some [''val1''] \<and>
   (\<exists>rs. fst (Execute (snd (Create bootedService trialContext exampleLabels ''p1'' [''val1'']))
            trialContext exampleLabels 0) = Inr (''p1'', rs) \<and> rs = [])"
proof -
  have h2: "fst (Create bootedService trialContext exampleLabels ''p1'' [''val1'']) = Inr ()"
    by (simp add: Create_unfold)
  obtain rs where h3: "fst (Execute (snd (Create bootedService trialContext exampleLabels ''p1'' [''val1'']))
            trialContext exampleLabels 0) = Inr (''p1'', rs)"
    unfolding bootedService_eq by (simp add: service_defs storage_defs key_defs)
  have h4: "\<not> prefix ''service:configuration:namespace:'' ''p1''"
    by simp
  have k: "appendToNamespace (pieceListKey (labelsToNamespace exampleLabels)) ''p1'' =
      ''service:configuration:namespace:featureX-stageA:piece:list-p1''"
    by (simp add: key_defs)
  from Execute_misses_registered_results [OF bootedService_reachable h2 h3 h4]
  have "pieces (snd (Create bootedService trialContext exampleLabels ''p1'' [''val1'']))
     ''service:configuration:namespace:featureX-stageA:piece:list-p1'' = Some [''val1''] \<and> rs = []"
    unfolding k by blast
  with bootedService_reachable h2 h3 h4 show ?thesis by blast
qed

text \<open>
  C6. A Create call with a stage value succeeds; it leaves the score of a piece that is
  already a member of the piece scored set as it is and inserts an absent piece at score 0,
  so a second Create with the same piece identifier does not change the score the first one
  left; and it overwrites the cache entry of the namespace and piece with the results given.
\<close>

theorem Create_keeps_score_overwrites_cache:
  "fst (Create s (Some currentStage) labels pieceID results) = Inr () \<and>
   (map_of (members (storage s) (pieceListKey (labelsToNamespace labels))) pieceID = Some v \<longrightarrow>
    map_of (members (storage (snd (Create s (Some currentStage) labels pieceID results)))
      (pieceListKey (labelsToNamespace labels))) pieceID = Some v) \<and>
   (map_of (members (storage s) (pieceListKey (labelsToNamespace labels))) pieceID = None \<longrightarrow>
    map_of (members (storage (snd (Create s (Some currentStage) labels pieceID results)))
      (pieceListKey (labelsToNamespace labels))) pieceID = Some 0) \<and>
   map_of (members (storage (snd (Create
       (snd (Create s (Some currentStage) labels pieceID results))
       (Some currentStage') labels pieceID results')))
      (pieceListKey (labelsToNamespace labels))) pieceID =
     map_of (members (storage (snd (Create s (Some currentStage) labels pieceID results)))
      (pieceListKey (labelsToNamespace labels))) pieceID \<and>
   pieces (snd (Create s (Some currentStage) labels pieceID results))
     (appendToNamespace (pieceListKey (labelsToNamespace labels)) pieceID) = Some results \<and>
   pieces (snd (Create
       (snd (Create s (Some currentStage) labels pieceID results))
       (Some currentStage') labels pieceID results'))
     (appendToNamespace (pieceListKey (labelsToNamespace labels)) pieceID) = Some results'"
proof -
  let ?key = "pieceListKey (labelsToNamespace labels)"
  let ?s1 = "snd (Create s (Some currentStage) labels pieceID results)"
  let ?s2 = "snd (Create ?s1 (Some currentStage') labels pieceID results')"
  have one: "map_of (members (storage ?s1) ?key) pieceID = Some (score (storage s) ?key pieceID)"
    by (rule Create_score)
  have two: "map_of (members (storage ?s2) ?key) pieceID = Some (score (storage ?s1) ?key pieceID)"
    by (rule Create_score)
  have "score (storage ?s1) ?key pieceID = score (storage s) ?key pieceID"
    using one by (simp add: score_def)
  with one two have "map_of (members (storage ?s2) ?key) pieceID =
      map_of (members (storage ?s1) ?key) pieceID"
    by simp
  moreover have "fst (Create s (Some currentStage) labels pieceID results) = Inr ()"
    by (simp add: Create_unfold)
  moreover have "pieces ?s1 (appendToNamespace ?key pieceID) = Some results"
    by (simp add: Create_unfold)
  moreover have "pieces ?s2 (appendToNamespace ?key pieceID) = Some results'"
    by (simp add: Create_unfold [of ?s1])
  ultimately show ?thesis
    using one by (simp add: score_def)
qed

theorem Create_keeps_score_overwrites_cache_witness:
  "map_of (members (storage succeededOnce) (pieceListKey (labelsToNamespace exampleLabels))) ''p1''
     = Some 1 \<and>
   map_of (members (storage (snd (Create succeededOnce trialContext exampleLabels ''p1'' [''new''])))
      (pieceListKey (labelsToNamespace exampleLabels))) ''p1'' = Some 1 \<and>
   pieces succeededOnce (appendToNamespace (pieceListKey (labelsToNamespace exampleLabels)) ''p1'')
     = Some [''val1''] \<and>
   pieces (snd (Create succeededOnce trialContext exampleLabels ''p1'' [''new'']))
     (appendToNamespace (pieceListKey (labelsToNamespace exampleLabels)) ''p1'') = Some [''new'']"
proof -
  have h: "map_of (members (storage succeededOnce) (pieceListKey (labelsToNamespace exampleLabels)))
      ''p1'' = Some 1"
    unfolding succeededOnce_eq by (simp add: members_def key_defs)
  have c: "pieces succeededOnce
      (appendToNamespace (pieceListKey (labelsToNamespace exampleLabels)) ''p1'') = Some [''val1'']"
    unfolding succeededOnce_eq by (simp add: key_defs)
  from h c Create_keeps_score_overwrites_cache
    [of succeededOnce "\<lparr>Trial = True, Replay = False\<rparr>" exampleLabels "''p1''" "[''new'']" 1]
  show ?thesis by blast
qed

section \<open>Failure and Delete\<close>

text \<open>
  C4, as the claim states it, fails: after the two pieces were created and one trial
  execution recorded the ruler \<open>"random"\<close> and the piece \<open>"p1"\<close>, Failure leaves both the
  used-ruler record and the used-piece record in the storage.
\<close>

theorem Failure_keeps_used_records_counterexample:
  "scalars (storage (snd (Failure executedOnce trialContext exampleLabels)))
     (rulerUsedKey (labelsToNamespace exampleLabels)) = Some ''random'' \<and>
   scalars (storage (snd (Failure executedOnce trialContext exampleLabels)))
     (pieceUsedKey (labelsToNamespace exampleLabels)) = Some ''p1''"
  unfolding executedOnce_eq by (simp add: Failure_def Delete_unfold key_defs)

text \<open>
  C4, amended. Failure, which delegates to Delete, succeeds and removes both persistent
  scored sets of the namespace (ruler list and piece list) and every cache entry whose key
  has the namespace's piece-list key as a prefix; the used-ruler and used-piece records of
  the namespace stay as they were.
\<close>

theorem Failure_removes_lists_and_cache:
  "fst (Failure s ctx labels) = Inr () \<and>
   Failure s ctx labels = Delete s ctx labels \<and>
   scored (storage (snd (Failure s ctx labels))) (rulerListKey (labelsToNamespace labels)) = None \<and>
   scored (storage (snd (Failure s ctx labels))) (pieceListKey (labelsToNamespace labels)) = None \<and>
   (\<forall>k. prefix (pieceListKey (labelsToNamespace labels)) k \<longrightarrow>
        pieces (snd (Failure s ctx labels)) k = None) \<and>
   scalars (storage (snd (Failure s ctx labels))) (rulerUsedKey (labelsToNamespace labels)) =
     scalars (storage s) (rulerUsedKey (labelsToNamespace labels)) \<and>
   scalars (storage (snd (Failure s ctx labels))) (pieceUsedKey (labelsToNamespace labels)) =
     scalars (storage s) (pieceUsedKey (labelsToNamespace labels))"
  by (simp add: Failure_def Delete_unfold)

theorem Failure_removes_lists_and_cache_witness:
  "prefix (pieceListKey (labelsToNamespace exampleLabels))
     (appendToNamespace (pieceListKey (labelsToNamespace exampleLabels)) ''p1'') \<and>
   pieces executedOnce
     (appendToNamespace (pieceListKey (labelsToNamespace exampleLabels)) ''p1'') = Some [''val1''] \<and>
   pieces (snd (Failure executedOnce trialContext exampleLabels))
     (appendToNamespace (pieceListKey (labelsToNamespace exampleLabels)) ''p1'') = None \<and>
   scored (storage (snd (Failure executedOnce trialContext exampleLabels)))
     (pieceListKey (labelsToNamespace exampleLabels)) = None"
proof -
  have h: "prefix (pieceListKey (labelsToNamespace exampleLabels))
     (appendToNamespace (pieceListKey (labelsToNamespace exampleLabels)) ''p1'')"
    by (simp add: appendToNamespace_def)
  have c: "pieces executedOnce
     (appendToNamespace (pieceListKey (labelsToNamespace exampleLabels)) ''p1'') = Some [''val1'']"
    unfolding executedOnce_eq by (simp add: key_defs)
  from h c Failure_removes_lists_and_cache [of executedOnce trialContext exampleLabels]
  show ?thesis by blast
qed

section \<open>Success\<close>

text \<open>
  C7. When the used-ruler record and the used-piece record of the namespace can be read,
  Success succeeds and raises by exactly 1 the score of the recorded ruler in the ruler
  scored set and the score of the recorded piece in the piece scored set (a member that is
  absent counts as score 0); every other member of every scored set, every scalar record,
  the cache and the registry stay as they were. When the read of either record fails,
  Success fails with the error of that read.
\<close>

theorem Success_increments_two_scores:
  "(scalars (storage s) (rulerUsedKey (labelsToNamespace labels)) = Some rulerID \<and>
    scalars (storage s) (pieceUsedKey (labelsToNamespace labels)) = Some pieceID \<longrightarrow>
      fst (Success s ctx labels) = Inr () \<and>
      score (storage (snd (Success s ctx labels))) (rulerListKey (labelsToNamespace labels)) rulerID =
        score (storage s) (rulerListKey (labelsToNamespace labels)) rulerID + 1 \<and>
      score (storage (snd (Success s ctx labels))) (pieceListKey (labelsToNamespace labels)) pieceID =
        score (storage s) (pieceListKey (labelsToNamespace labels)) pieceID + 1 \<and>
      (\<forall>key member. (key, member) \<noteq> (rulerListKey (labelsToNamespace labels), rulerID) \<and>
                    (key, member) \<noteq> (pieceListKey (labelsToNamespace labels), pieceID) \<longrightarrow>
         map_of (members (storage (snd (Success s ctx labels))) key) member =
         map_of (members (storage s) key) member) \<and>
      scalars (storage (snd (Success s ctx labels))) = scalars (storage s) \<and>
      pieces (snd (Success s ctx labels)) = pieces s \<and>
      rulers (snd (Success s ctx labels)) = rulers s \<and>
      bootOnce (snd (Success s ctx labels)) = bootOnce s) \<and>
   (Get (storage s) (rulerUsedKey (labelsToNamespace labels)) = Inl err \<longrightarrow>
      Success s ctx labels = (Inl err, s)) \<and>
   (Get (storage s) (pieceUsedKey (labelsToNamespace labels)) = Inl err \<longrightarrow>
      fst (Success s ctx labels) = Inl err)"
proof (intro conjI impI)
  let ?ns = "labelsToNamespace labels"
  assume h: "scalars (storage s) (rulerUsedKey ?ns) = Some rulerID \<and>
    scalars (storage s) (pieceUsedKey ?ns) = Some pieceID"
  let ?st1 = "(storage s)\<lparr>scored := (scored (storage s))(rulerListKey ?ns \<mapsto>
      AList.update rulerID (score (storage s) (rulerListKey ?ns) rulerID + 1)
        (members (storage s) (rulerListKey ?ns)))\<rparr>"
  let ?st2 = "?st1\<lparr>scored := (scored ?st1)(pieceListKey ?ns \<mapsto>
      AList.update pieceID (score ?st1 (pieceListKey ?ns) pieceID + 1)
        (members ?st1 (pieceListKey ?ns)))\<rparr>"
  have eq: "Success s ctx labels = (Inr (), s\<lparr>storage := ?st2\<rparr>)"
    using h by (simp add: Success_unfold IncrementScoredElement_def Let_def)
  have p1: "score ?st1 (pieceListKey ?ns) pieceID = score (storage s) (pieceListKey ?ns) pieceID"
    using lookup_update_other [of "pieceListKey ?ns" pieceID "rulerListKey ?ns" rulerID "storage s"]
    by (simp add: score_def)
  show "fst (Success s ctx labels) = Inr ()"
    by (simp add: eq)
  show "score (storage (snd (Success s ctx labels))) (pieceListKey ?ns) pieceID =
        score (storage s) (pieceListKey ?ns) pieceID + 1"
    unfolding eq snd_conv using score_update_same [of ?st1 "pieceListKey ?ns" pieceID] p1
    by simp
  have "score ?st2 (rulerListKey ?ns) rulerID = score ?st1 (rulerListKey ?ns) rulerID"
    using lookup_update_other [of "rulerListKey ?ns" rulerID "pieceListKey ?ns" pieceID ?st1]
    by (simp add: score_def)
  then show "score (storage (snd (Success s ctx labels))) (rulerListKey ?ns) rulerID =
        score (storage s) (rulerListKey ?ns) rulerID + 1"
    unfolding eq snd_conv using score_update_same [of "storage s" "rulerListKey ?ns" rulerID]
    by simp
  show "\<forall>key member. (key, member) \<noteq> (rulerListKey ?ns, rulerID) \<and>
                    (key, member) \<noteq> (pieceListKey ?ns, pieceID) \<longrightarrow>
         map_of (members (storage (snd (Success s ctx labels))) key) member =
         map_of (members (storage s) key) member"
  proof (intro allI impI)
    fix key member
    assume ne: "(key, member) \<noteq> (rulerListKey ?ns, rulerID) \<and>
                (key, member) \<noteq> (pieceListKey ?ns, pieceID)"
    have "map_of (members ?st2 key) member = map_of (members ?st1 key) member"
      using ne by (intro lookup_update_other) simp
    also have "\<dots> = map_of (members (storage s) key) member"
      using ne by (intro lookup_update_other) simp
    finally show "map_of (members (storage (snd (Success s ctx labels))) key) member =
         map_of (members (storage s) key) member"
      by (simp add: eq)
  qed
  show "scalars (storage (snd (Success s ctx labels))) = scalars (storage s)"
    by (simp add: eq)
  show "pieces (snd (Success s ctx labels)) = pieces s"
    by (simp add: eq)
  show "rulers (snd (Success s ctx labels)) = rulers s"
    by (simp add: eq)
  show "bootOnce (snd (Success s ctx labels)) = bootOnce s"
    by (simp add: eq)
next
  assume "Get (storage s) (rulerUsedKey (labelsToNamespace labels)) = Inl err"
  then show "Success s ctx labels = (Inl err, s)"
    by (simp add: Success_def Let_def)
next
  assume "Get (storage s) (pieceUsedKey (labelsToNamespace labels)) = Inl err"
  then show "fst (Success s ctx labels) = Inl err"
    by (auto simp add: Success_def Let_def Get_def IncrementScoredElement_def
        split: sum.splits option.splits)
qed

theorem Success_increments_two_scores_witness:
  "scalars (storage executedOnce) (rulerUsedKey (labelsToNamespace exampleLabels)) = Some ''random'' \<and>
   scalars (storage executedOnce) (pieceUsedKey (labelsToNamespace exampleLabels)) = Some ''p1'' \<and>
   score (storage executedOnce) (rulerListKey (labelsToNamespace exampleLabels)) ''random'' = 0 \<and>
   score (storage executedOnce) (pieceListKey (labelsToNamespace exampleLabels)) ''p1'' = 0 \<and>
   fst (Success executedOnce trialContext exampleLabels) = Inr () \<and>
   score (storage succeededOnce) (rulerListKey (labelsToNamespace exampleLabels)) ''random'' = 1 \<and>
   score (storage succeededOnce) (pieceListKey (labelsToNamespace exampleLabels)) ''p1'' = 1 \<and>
   map_of (members (storage succeededOnce) (pieceListKey (labelsToNamespace exampleLabels))) ''p2'' =
     map_of (members (storage executedOnce) (pieceListKey (labelsToNamespace exampleLabels))) ''p2'' \<and>
   Get (storage bootedService) (rulerUsedKey (labelsToNamespace exampleLabels)) = Inl notFoundError \<and>
   Success bootedService trialContext exampleLabels = (Inl notFoundError, bootedService)"
proof -
  have h1: "scalars (storage executedOnce) (rulerUsedKey (labelsToNamespace exampleLabels)) = Some ''random''"
    unfolding executedOnce_eq by (simp add: key_defs)
  have h2: "scalars (storage executedOnce) (pieceUsedKey (labelsToNamespace exampleLabels)) = Some ''p1''"
    unfolding executedOnce_eq by (simp add: key_defs)
  have z1: "score (storage executedOnce) (rulerListKey (labelsToNamespace exampleLabels)) ''random'' = 0"
    unfolding executedOnce_eq by (simp add: score_def members_def key_defs)
  have z2: "score (storage executedOnce) (pieceListKey (labelsToNamespace exampleLabels)) ''p1'' = 0"
    unfolding executedOnce_eq by (simp add: score_def members_def key_defs)
  have ne: "(pieceListKey (labelsToNamespace exampleLabels), ''p2'') \<noteq>
        (rulerListKey (labelsToNamespace exampleLabels), ''random'') \<and>
      (pieceListKey (labelsToNamespace exampleLabels), ''p2'') \<noteq>
        (pieceListKey (labelsToNamespace exampleLabels), ''p1'')"
    by simp
  have g: "Get (storage bootedService) (rulerUsedKey (labelsToNamespace exampleLabels)) = Inl notFoundError"
    by (simp add: Get_def bootedService_eq)
  note inst = Success_increments_two_scores
    [where s = executedOnce and labels = exampleLabels and rulerID = "''random''" and
       pieceID = "''p1''" and ctx = trialContext and err = notFoundError,
     folded succeededOnce_def]
  have ok: "fst (Success executedOnce trialContext exampleLabels) = Inr () \<and>
      score (storage succeededOnce) (rulerListKey (labelsToNamespace exampleLabels)) ''random'' =
        score (storage executedOnce) (rulerListKey (labelsToNamespace exampleLabels)) ''random'' + 1 \<and>
      score (storage succeededOnce) (pieceListKey (labelsToNamespace exampleLabels)) ''p1'' =
        score (storage executedOnce) (pieceListKey (labelsToNamespace exampleLabels)) ''p1'' + 1 \<and>
      (\<forall>key member. (key, member) \<noteq> (rulerListKey (labelsToNamespace exampleLabels), ''random'') \<and>
                    (key, member) \<noteq> (pieceListKey (labelsToNamespace exampleLabels), ''p1'') \<longrightarrow>
         map_of (members (storage succeededOnce) key) member =
         map_of (members (storage executedOnce) key) member) \<and>
      scalars (storage succeededOnce) = scalars (storage executedOnce) \<and>
      pieces succeededOnce = pieces executedOnce \<and>
      rulers succeededOnce = rulers executedOnce \<and>
      bootOnce succeededOnce = bootOnce executedOnce"
    using h1 h2 by (intro mp [OF conjunct1 [OF inst]] conjI)
  have other: "map_of (members (storage succeededOnce)
        (pieceListKey (labelsToNamespace exampleLabels))) ''p2'' =
      map_of (members (storage executedOnce)
        (pieceListKey (labelsToNamespace exampleLabels))) ''p2''"
    using ne ok [THEN conjunct2, THEN conjunct2, THEN conjunct2, THEN conjunct1, rule_format,
      of "pieceListKey (labelsToNamespace exampleLabels)" "''p2''"]
    by simp
  have b: "Success bootedService trialContext exampleLabels = (Inl notFoundError, bootedService)"
    using g Success_increments_two_scores
      [where s = bootedService and labels = exampleLabels and rulerID = "''random''" and
         pieceID = "''p1''" and ctx = trialContext and err = notFoundError,
       THEN conjunct2, THEN conjunct1]
    by simp
  have a1: "fst (Success executedOnce trialContext exampleLabels) = Inr ()"
    using ok by (rule conjunct1)
  have a2: "score (storage succeededOnce) (rulerListKey (labelsToNamespace exampleLabels)) ''random'' = 1"
    using ok [THEN conjunct2, THEN conjunct1] z1 by simp
  have a3: "score (storage succeededOnce) (pieceListKey (labelsToNamespace exampleLabels)) ''p1'' = 1"
    using ok [THEN conjunct2, THEN conjunct2, THEN conjunct1] z2 by simp
  show ?thesis
    by (intro conjI h1 h2 z1 z2 a1 a2 a3 other g b)

qed

end
